theory Spec2Isabelle
  imports Main
begin

section \<open>The photo booth component of \<^verbatim>\<open>src/app/page.tsx\<close>\<close>

text \<open>
  The repository is one React component, \<^verbatim>\<open>PhotoBoothApp\<close>. Its state hooks become
  the fields of a record, its handlers become functions from state to state, every
  \<^verbatim>\<open>setTimeout\<close> becomes an entry of a timer queue with its due time, and the two
  drawing surfaces it writes to become values that log every drawing call together with
  the drawing state in force at the call.
\<close>

subsection \<open>Filter catalog\<close>

datatype FilterType = F90s | F2000s | Noir | Fisheye | Rainbow | Glitch | Crosshatch

record FilterEntry =
  name :: FilterType
  label :: string
  css :: string

definition availableFilters :: "FilterEntry list" where
  "availableFilters =
    [\<lparr>name = F90s, label = ''90s'',
        css = ''sepia(0.8) saturate(1.4) hue-rotate(315deg) brightness(1.1)''\<rparr>,
     \<lparr>name = F2000s, label = ''2000s'',
        css = ''saturate(1.6) contrast(1.2) brightness(1.1) hue-rotate(10deg)''\<rparr>,
     \<lparr>name = Noir, label = ''Noir'', css = ''grayscale(1) contrast(1.3) brightness(0.9)''\<rparr>,
     \<lparr>name = Fisheye, label = ''Fisheye'', css = ''contrast(1.2) saturate(1.3)''\<rparr>,
     \<lparr>name = Rainbow, label = ''Rainbow'',
        css = ''hue-rotate(180deg) saturate(2) brightness(1.2)''\<rparr>,
     \<lparr>name = Glitch, label = ''Glitch'', css = ''hue-rotate(90deg) saturate(2) contrast(1.5)''\<rparr>,
     \<lparr>name = Crosshatch, label = ''Crosshatch'',
        css = ''contrast(1.4) brightness(0.8) saturate(0.8)''\<rparr>]"

text \<open>
  \<^verbatim>\<open>availableFilters.find((f) => f.name === currentFilter)?.css || ""\<close>: the entry's
  transform, or the empty string when no entry has that name.
\<close>

definition selectedFilter :: "FilterType \<Rightarrow> string" where
  "selectedFilter currentFilter =
     (case find (\<lambda>f. name f = currentFilter) availableFilters of
        None \<Rightarrow> ''''
      | Some f \<Rightarrow> css f)"

subsection \<open>The 2D drawing surface\<close>

text \<open>
  A canvas is its size, the current drawing state, the stack of saved drawing states and
  the log of drawing calls made on it. The only transform the component uses is
  \<^verbatim>\<open>scale\<close>, so the current transform is a pair of scale factors.
\<close>

datatype paint = Color string | LinearGradient int int int int "(nat \<times> string) list"

record gstate =
  ctx_filter :: string
  scaleX :: int
  scaleY :: int
  fillStyle :: paint
  strokeStyle :: string
  lineWidth :: nat
  shadowColor :: string
  shadowBlur :: nat
  shadowOffsetX :: nat
  shadowOffsetY :: nat
  font :: string
  textAlign :: string

definition default_gstate :: gstate where
  "default_gstate =
     \<lparr>ctx_filter = ''none'', scaleX = 1, scaleY = 1, fillStyle = Color ''#000000'',
      strokeStyle = ''#000000'', lineWidth = 1, shadowColor = ''rgba(0, 0, 0, 0)'',
      shadowBlur = 0, shadowOffsetX = 0, shadowOffsetY = 0, font = ''10px sans-serif'',
      textAlign = ''start''\<rparr>"

record video_el =
  videoWidth :: nat
  videoHeight :: nat
  frame :: nat

datatype image_source = VideoFrame video_el | Img string

datatype draw_op =
    FillRect gstate int int int int
  | StrokeRect gstate int int int int
  | DrawImage gstate image_source int int "(int \<times> int) option"
  | FillText gstate string int int

record canvas_el =
  has_context :: bool
  width :: nat
  height :: nat
  cur :: gstate
  saved :: "gstate list"
  ops :: "draw_op list"

text \<open>
  Assigning \<^verbatim>\<open>canvas.width\<close> or \<^verbatim>\<open>canvas.height\<close> clears the bitmap and puts the
  context back into its default state.
\<close>

definition set_width :: "nat \<Rightarrow> canvas_el \<Rightarrow> canvas_el" where
  "set_width w c = c\<lparr>width := w, cur := default_gstate, saved := [], ops := []\<rparr>"

definition set_height :: "nat \<Rightarrow> canvas_el \<Rightarrow> canvas_el" where
  "set_height h c = c\<lparr>height := h, cur := default_gstate, saved := [], ops := []\<rparr>"

text \<open>
  Assigning \<^verbatim>\<open>context.filter\<close> a string that is no filter list (the empty string is
  none) leaves the attribute as it was.
\<close>

definition set_filter :: "string \<Rightarrow> canvas_el \<Rightarrow> canvas_el" where
  "set_filter f c = (if f = [] then c else c\<lparr>cur := (cur c)\<lparr>ctx_filter := f\<rparr>\<rparr>)"

definition save :: "canvas_el \<Rightarrow> canvas_el" where
  "save c = c\<lparr>saved := cur c # saved c\<rparr>"

definition restore :: "canvas_el \<Rightarrow> canvas_el" where
  "restore c = (case saved c of [] \<Rightarrow> c | g # gs \<Rightarrow> c\<lparr>cur := g, saved := gs\<rparr>)"

definition scale :: "int \<Rightarrow> int \<Rightarrow> canvas_el \<Rightarrow> canvas_el" where
  "scale sx sy c = c\<lparr>cur := (cur c)\<lparr>scaleX := scaleX (cur c) * sx, scaleY := scaleY (cur c) * sy\<rparr>\<rparr>"

definition drawImage :: "image_source \<Rightarrow> int \<Rightarrow> int \<Rightarrow> (int \<times> int) option \<Rightarrow> canvas_el \<Rightarrow> canvas_el" where
  "drawImage src x y wh c = c\<lparr>ops := ops c @ [DrawImage (cur c) src x y wh]\<rparr>"

definition fillRect :: "int \<Rightarrow> int \<Rightarrow> int \<Rightarrow> int \<Rightarrow> canvas_el \<Rightarrow> canvas_el" where
  "fillRect x y w h c = c\<lparr>ops := ops c @ [FillRect (cur c) x y w h]\<rparr>"

definition strokeRect :: "int \<Rightarrow> int \<Rightarrow> int \<Rightarrow> int \<Rightarrow> canvas_el \<Rightarrow> canvas_el" where
  "strokeRect x y w h c = c\<lparr>ops := ops c @ [StrokeRect (cur c) x y w h]\<rparr>"

definition fillText :: "string \<Rightarrow> int \<Rightarrow> int \<Rightarrow> canvas_el \<Rightarrow> canvas_el" where
  "fillText t x y c = c\<lparr>ops := ops c @ [FillText (cur c) t x y]\<rparr>"

text \<open>
  Where a pixel of a drawn image lands on the bitmap: the point \<open>(u, v)\<close> of the source,
  drawn at \<open>(x, y)\<close> without resizing, goes through the transform of the drawing state.
\<close>

definition lands_at :: "gstate \<Rightarrow> int \<Rightarrow> int \<Rightarrow> int \<times> int \<Rightarrow> int \<times> int" where
  "lands_at g x y p = (scaleX g * (x + fst p), scaleY g * (y + snd p))"

subsection \<open>Rasterising the live frame\<close>

text \<open>
  \<^verbatim>\<open>captureCurrentFrame\<close>. The arguments are the encoder behind
  \<^verbatim>\<open>canvas.toDataURL("image/jpeg", 0.9)\<close>, the filter the closure holds, and what the two
  refs hold. The result is the returned data URL (\<open>None\<close> for \<^verbatim>\<open>null\<close>) and the canvas
  as the call leaves it.
\<close>

definition captureCurrentFrame ::
  "(canvas_el \<Rightarrow> string) \<Rightarrow> FilterType \<Rightarrow> video_el option \<Rightarrow> canvas_el option
     \<Rightarrow> string option \<times> canvas_el option" where
  "captureCurrentFrame toDataURL currentFilter videoRef canvasRef =
     (case (videoRef, canvasRef) of
        (Some video, Some canvas) \<Rightarrow>
          if \<not> has_context canvas then (None, canvasRef)
          else
            let c1 = set_width (videoWidth video) canvas;
                c2 = set_height (videoHeight video) c1;
                c3 = set_filter (selectedFilter currentFilter) c2;
                c4 = save c3;
                c5 = scale (- 1) 1 c4;
                c6 = drawImage (VideoFrame video) (- int (width c5)) 0 None c5;
                c7 = restore c6;
                c8 = set_filter ''none'' c7
            in (Some (toDataURL c8), Some c8)
      | _ \<Rightarrow> (None, canvasRef))"

subsection \<open>Component state\<close>

record CapturedPhoto =
  dataUrl :: string
  timestamp :: nat

record track =
  kind :: string
  ended :: bool

record media_stream =
  tracks :: "track list"

text \<open>
  A thrown or rejected value: an object that is \<^verbatim>\<open>instanceof Error\<close>, with its message,
  or some other (truthy) value such as the event passed to \<^verbatim>\<open>video.onerror\<close>.
\<close>

datatype thrown = ErrorObj string | NonError

datatype dimension = Ideal nat | Bare nat

datatype video_constraint = VideoTrue | VideoOpts dimension dimension "string option"

record camera_config =
  video :: video_constraint
  audio :: bool

definition cameraConfigs :: "camera_config list" where
  "cameraConfigs =
     [\<lparr>video = VideoOpts (Ideal 640) (Ideal 480) (Some ''user''), audio = False\<rparr>,
      \<lparr>video = VideoTrue, audio = False\<rparr>,
      \<lparr>video = VideoOpts (Bare 640) (Bare 480) None, audio = False\<rparr>]"

text \<open>
  What the browser answers while the camera is requested: whether
  \<^verbatim>\<open>navigator.mediaDevices?.getUserMedia\<close> exists, what \<^verbatim>\<open>getUserMedia\<close> settles to for
  a configuration, and how the promise that waits for the preview settles (\<open>None\<close>:
  resolved; the ten-second timeout is the rejection
  \<open>ErrorObj ''Video loading timeout''\<close>).
\<close>

record camera_env =
  supported :: bool
  getUserMedia :: "camera_config \<Rightarrow> thrown + media_stream"
  ready :: "thrown option"

text \<open>What a callback finds outside the component state when it runs.\<close>

record world =
  videoRef :: "video_el option"
  canvasRef :: "canvas_el option"
  toDataURL :: "canvas_el \<Rightarrow> string"
  camera :: camera_env

datatype task = OpenCurtains | CaptureResume FilterType nat | ShowStrip

text \<open>
  The state hooks of the component, followed by the clock in milliseconds (also the value
  of \<^verbatim>\<open>Date.now()\<close>), the pending \<^verbatim>\<open>setTimeout\<close> callbacks with their due times, and the
  messages shown with \<^verbatim>\<open>alert\<close>.
\<close>

record booth =
  stream :: "media_stream option"
  isCapturing :: bool
  countdown :: "string option"
  capturedPhotos :: "CapturedPhoto list"
  currentFilter :: FilterType
  showPhotoStrip :: bool
  isLoading :: bool
  showCurtains :: bool
  curtainsAnimating :: bool
  clock :: nat
  timers :: "(nat \<times> task) list"
  alerts :: "string list"

definition initial :: booth where
  "initial =
     \<lparr>stream = None, isCapturing = False, countdown = None, capturedPhotos = [],
      currentFilter = F2000s, showPhotoStrip = False, isLoading = True, showCurtains = True,
      curtainsAnimating = False, clock = 0, timers = [], alerts = []\<rparr>"

text \<open>
  Which of its views the component returns: the curtain screen, the loading screen, the
  booth with the live video, or the finished strip.
\<close>

datatype SessionPhase = Intro | AwaitingDevice | Live | Reviewing

definition phase :: "booth \<Rightarrow> SessionPhase" where
  "phase s =
     (if showCurtains s then Intro
      else if isLoading s then AwaitingDevice
      else if \<not> showPhotoStrip s then Live
      else Reviewing)"

definition setTimeout :: "task \<Rightarrow> nat \<Rightarrow> booth \<Rightarrow> booth" where
  "setTimeout t ms s = s\<lparr>timers := timers s @ [(clock s + ms, t)]\<rparr>"

subsection \<open>Acquiring the camera\<close>

definition initializePhotoBooth :: "booth \<Rightarrow> booth" where
  "initializePhotoBooth s = setTimeout OpenCurtains 2000 (s\<lparr>curtainsAnimating := True\<rparr>)"

text \<open>
  The loop over \<^verbatim>\<open>cameraConfigs\<close>: the first stream obtained ends it, every rejection is
  kept as \<^verbatim>\<open>lastError\<close>.
\<close>

fun try_configs ::
  "(camera_config \<Rightarrow> thrown + media_stream) \<Rightarrow> camera_config list \<Rightarrow> thrown option
     \<Rightarrow> media_stream option \<times> thrown option" where
  "try_configs gum [] lastError = (None, lastError)"
| "try_configs gum (config # configs) lastError =
     (case gum config of
        Inr mediaStream \<Rightarrow> (Some mediaStream, lastError)
      | Inl error \<Rightarrow> try_configs gum configs (Some error))"

definition errorMessage :: "thrown \<Rightarrow> string" where
  "errorMessage error = (case error of ErrorObj message \<Rightarrow> message | NonError \<Rightarrow> ''Unknown camera error'')"

definition camera_alert :: "string \<Rightarrow> string" where
  "camera_alert message =
     ''Camera Error: '' @ message @ [CHR 0x0A, CHR 0x0A] @ ''Please:'' @ [CHR 0x0A]
       @ ''1. Allow camera permissions'' @ [CHR 0x0A]
       @ ''2. Make sure no other app is using the camera'' @ [CHR 0x0A]
       @ ''3. Try refreshing the page''"

text \<open>The \<^verbatim>\<open>catch\<close> block of \<^verbatim>\<open>requestCameraAccess\<close>.\<close>

definition camera_catch :: "thrown \<Rightarrow> booth \<Rightarrow> booth" where
  "camera_catch error s =
     s\<lparr>isLoading := False, alerts := alerts s @ [camera_alert (errorMessage error)]\<rparr>"

text \<open>
  \<^verbatim>\<open>requestCameraAccess\<close>, with the state updates it makes applied in their order. The
  preview is waited for only when the video element is mounted.
\<close>

definition requestCameraAccess :: "camera_env \<Rightarrow> video_el option \<Rightarrow> booth \<Rightarrow> booth" where
  "requestCameraAccess env vref s =
     (if \<not> supported env then camera_catch (ErrorObj ''Camera not supported by this browser'') s
      else
        case try_configs (getUserMedia env) cameraConfigs None of
          (None, lastError) \<Rightarrow>
            camera_catch
              (case lastError of Some error \<Rightarrow> error | None \<Rightarrow> ErrorObj ''Could not access camera'') s
        | (Some mediaStream, _) \<Rightarrow>
            let s1 = s\<lparr>stream := Some mediaStream\<rparr> in
            (case vref of
               None \<Rightarrow> s1\<lparr>isLoading := False\<rparr>
             | Some v \<Rightarrow>
                 (case ready env of
                    Some error \<Rightarrow> camera_catch error s1
                  | None \<Rightarrow> s1\<lparr>isLoading := False\<rparr>)))"

subsection \<open>Capturing a still\<close>

definition countdownSequence :: "string list" where
  "countdownSequence = [''3...'', ''2...'', ''1...'', ''Smile...'']"

text \<open>
  One turn of the countdown loop: show stage \<open>i\<close> and wait a second. The continuation
  keeps the filter of the render in which the shutter was pressed, as the closure does.
\<close>

definition countdown_stage :: "FilterType \<Rightarrow> nat \<Rightarrow> booth \<Rightarrow> booth" where
  "countdown_stage f i s =
     setTimeout (CaptureResume f (Suc i)) 1000 (s\<lparr>countdown := Some (countdownSequence ! i)\<rparr>)"

text \<open>
  The updater passed to \<^verbatim>\<open>setCapturedPhotos\<close>: it appends, and on the third still it
  schedules the switch to the strip.
\<close>

definition append_photo :: "CapturedPhoto \<Rightarrow> booth \<Rightarrow> booth" where
  "append_photo newPhoto s =
     (let updatedPhotos = capturedPhotos s @ [newPhoto];
          s1 = (if length updatedPhotos = 3 then setTimeout ShowStrip 500 s else s)
      in s1\<lparr>capturedPhotos := updatedPhotos\<rparr>)"

text \<open>\<^verbatim>\<open>if (photoData)\<close>: neither \<^verbatim>\<open>null\<close> nor the empty string.\<close>

definition truthy :: "string option \<Rightarrow> bool" where
  "truthy photoData = (case photoData of None \<Rightarrow> False | Some d \<Rightarrow> d \<noteq> [])"

text \<open>What \<^verbatim>\<open>handlePhotoCapture\<close> does once the countdown loop has ended.\<close>

definition after_countdown :: "world \<Rightarrow> FilterType \<Rightarrow> booth \<Rightarrow> booth" where
  "after_countdown w f s =
     (let s1 = s\<lparr>countdown := None\<rparr>;
          photoData = fst (captureCurrentFrame (toDataURL w) f (videoRef w) (canvasRef w));
          s2 = (if truthy photoData
                then append_photo \<lparr>dataUrl = the photoData, timestamp = clock s1\<rparr> s1
                else s1)
      in s2\<lparr>isCapturing := False\<rparr>)"

text \<open>\<^verbatim>\<open>handlePhotoCapture\<close> when it resumes after a wait, about to test \<open>i\<close>.\<close>

definition handlePhotoCapture_resume :: "world \<Rightarrow> FilterType \<Rightarrow> nat \<Rightarrow> booth \<Rightarrow> booth" where
  "handlePhotoCapture_resume w f i s =
     (if i < length countdownSequence then countdown_stage f i s else after_countdown w f s)"

text \<open>\<^verbatim>\<open>handlePhotoCapture\<close> up to its first wait.\<close>

definition handlePhotoCapture :: "booth \<Rightarrow> booth" where
  "handlePhotoCapture s =
     (if isCapturing s \<or> length (capturedPhotos s) \<ge> 3 then s
      else countdown_stage (currentFilter s) 0 (s\<lparr>isCapturing := True\<rparr>))"

definition resetPhotoBooth :: "booth \<Rightarrow> booth" where
  "resetPhotoBooth s = s\<lparr>showPhotoStrip := False, capturedPhotos := [], countdown := None\<rparr>"

subsection \<open>Events\<close>

text \<open>
  The component is driven by clicks and by timers coming due. A handler runs to its next
  wait without interruption, and React renders between two events, so a handler reads the
  state as the previous event left it.
\<close>

datatype event =
    StartClick | FilterClick FilterType | ShutterClick | ResetClick | Tick nat | Fire nat world

definition run_task :: "world \<Rightarrow> task \<Rightarrow> booth \<Rightarrow> booth" where
  "run_task w t s =
     (case t of
        OpenCurtains \<Rightarrow> requestCameraAccess (camera w) (videoRef w) (s\<lparr>showCurtains := False\<rparr>)
      | CaptureResume f i \<Rightarrow> handlePhotoCapture_resume w f i s
      | ShowStrip \<Rightarrow> s\<lparr>showPhotoStrip := True\<rparr>)"

definition handle :: "event \<Rightarrow> booth \<Rightarrow> booth" where
  "handle e s =
     (case e of
        StartClick \<Rightarrow> initializePhotoBooth s
      | FilterClick f \<Rightarrow> s\<lparr>currentFilter := f\<rparr>
      | ShutterClick \<Rightarrow> handlePhotoCapture s
      | ResetClick \<Rightarrow> resetPhotoBooth s
      | Tick ms \<Rightarrow> s\<lparr>clock := clock s + ms\<rparr>
      | Fire k w \<Rightarrow>
          run_task w (snd (timers s ! k)) (s\<lparr>timers := take k (timers s) @ drop (Suc k) (timers s)\<rparr>))"

text \<open>A timer callback runs only if it is pending and not before it is due.\<close>

definition due :: "event \<Rightarrow> booth \<Rightarrow> bool" where
  "due e s = (case e of Fire k w \<Rightarrow> k < length (timers s) \<and> fst (timers s ! k) \<le> clock s | _ \<Rightarrow> True)"

text \<open>
  Which control is on the page to be clicked: the coin slot on the curtain screen, the
  filter buttons and the shutter (unless \<^verbatim>\<open>disabled\<close>) in the booth, the reshoot button
  beside the strip.
\<close>

definition clickable :: "event \<Rightarrow> booth \<Rightarrow> bool" where
  "clickable e s =
     (case e of
        StartClick \<Rightarrow> phase s = Intro
      | FilterClick f \<Rightarrow> phase s = Live
      | ShutterClick \<Rightarrow> phase s = Live \<and> \<not> (isCapturing s \<or> length (capturedPhotos s) \<ge> 3)
      | ResetClick \<Rightarrow> phase s = Reviewing
      | _ \<Rightarrow> True)"

text \<open>
  \<open>calls\<close> runs handlers in any order, whatever the page shows; \<open>run\<close> runs only the
  events the page offers. Both give \<open>None\<close> when an event cannot happen.
\<close>

fun calls :: "event list \<Rightarrow> booth \<Rightarrow> booth option" where
  "calls [] s = Some s"
| "calls (e # es) s = (if due e s then calls es (handle e s) else None)"

fun run :: "event list \<Rightarrow> booth \<Rightarrow> booth option" where
  "run [] s = Some s"
| "run (e # es) s = (if due e s \<and> clickable e s then run es (handle e s) else None)"

subsection \<open>Composite renderer\<close>

definition STRIP_WIDTH :: int where "STRIP_WIDTH = 260"
definition STRIP_HEIGHT :: int where "STRIP_HEIGHT = 650"
definition PHOTO_WIDTH :: int where "PHOTO_WIDTH = 220"
definition PHOTO_HEIGHT :: int where "PHOTO_HEIGHT = 165"
definition MARGIN :: int where "MARGIN = 20"
definition PHOTO_SPACING :: int where "PHOTO_SPACING = 20"

text \<open>Assignment to a property of the context.\<close>

definition set_ctx :: "(gstate \<Rightarrow> gstate) \<Rightarrow> canvas_el \<Rightarrow> canvas_el" where
  "set_ctx f c = c\<lparr>cur := f (cur c)\<rparr>"

text \<open>
  A run of \<^verbatim>\<open>createPhotoStrip\<close> that got past its guards: the canvas, its own
  \<^verbatim>\<open>loadedCount\<close>, and the images created by the \<^verbatim>\<open>forEach\<close> that have not fired their
  \<^verbatim>\<open>load\<close> event yet, each with the index its handler closes over and its source.
\<close>

record strip_job =
  canvas :: canvas_el
  loadedCount :: nat
  loading :: "(nat \<times> string) list"

text \<open>
  \<^verbatim>\<open>createPhotoStrip\<close> up to the end of the \<^verbatim>\<open>forEach\<close>; \<open>None\<close> when it returns at
  one of its guards.
\<close>

definition createPhotoStrip :: "canvas_el option \<Rightarrow> CapturedPhoto list \<Rightarrow> strip_job option" where
  "createPhotoStrip photoStripCanvasRef photos =
     (case photoStripCanvasRef of
        None \<Rightarrow> None
      | Some c \<Rightarrow>
          if length photos \<noteq> 3 then None
          else if \<not> has_context c then None
          else
            let c1 = set_width (nat STRIP_WIDTH) c;
                c2 = set_height (nat STRIP_HEIGHT) c1;
                backgroundGradient =
                  LinearGradient 0 0 0 STRIP_HEIGHT [(0, ''#ffffff''), (1, ''#f8f9fa'')];
                c3 = set_ctx (\<lambda>g. g\<lparr>fillStyle := backgroundGradient\<rparr>) c2;
                c4 = fillRect 0 0 STRIP_WIDTH STRIP_HEIGHT c3;
                c5 = set_ctx (\<lambda>g. g\<lparr>strokeStyle := ''#e9ecef''\<rparr>) c4;
                c6 = set_ctx (\<lambda>g. g\<lparr>lineWidth := 2\<rparr>) c5;
                c7 = strokeRect 1 1 (STRIP_WIDTH - 2) (STRIP_HEIGHT - 2) c6
            in Some \<lparr>canvas = c7, loadedCount = 0,
                     loading = zip [0 ..< length photos] (map dataUrl photos)\<rparr>)"

text \<open>
  The caption, with the camera emoji and the bullet written as their UTF-8 bytes;
  \<open>currentDate\<close> is what \<^verbatim>\<open>toLocaleDateString\<close> returns.
\<close>

definition caption :: "string \<Rightarrow> string" where
  "caption currentDate =
     [CHR 0xF0, CHR 0x9F, CHR 0x93, CHR 0xB8] @ ''College Wishlist '' @ [CHR 0xE2, CHR 0x80, CHR 0xA2]
       @ '' '' @ currentDate"

text \<open>The \<^verbatim>\<open>img.onload\<close> handler of the image with this index and source.\<close>

definition img_onload :: "string \<Rightarrow> nat \<Rightarrow> string \<Rightarrow> strip_job \<Rightarrow> strip_job" where
  "img_onload currentDate index src job =
     (let yPosition = MARGIN + int index * (PHOTO_HEIGHT + PHOTO_SPACING);
          c1 = set_ctx (\<lambda>g. g\<lparr>shadowColor := ''rgba(0,0,0,0.15)'', shadowBlur := 8,
                               shadowOffsetX := 3, shadowOffsetY := 3\<rparr>) (canvas job);
          c2 = set_ctx (\<lambda>g. g\<lparr>fillStyle := Color ''#ffffff''\<rparr>) c1;
          c3 = fillRect (MARGIN - 5) (yPosition - 5) (PHOTO_WIDTH + 10) (PHOTO_HEIGHT + 10) c2;
          c4 = drawImage (Img src) MARGIN yPosition (Some (PHOTO_WIDTH, PHOTO_HEIGHT)) c3;
          c5 = set_ctx (\<lambda>g. g\<lparr>shadowColor := ''transparent'', shadowBlur := 0,
                               shadowOffsetX := 0, shadowOffsetY := 0\<rparr>) c4;
          c6 = set_ctx (\<lambda>g. g\<lparr>strokeStyle := ''#dee2e6'', lineWidth := 1\<rparr>) c5;
          c7 = strokeRect MARGIN yPosition PHOTO_WIDTH PHOTO_HEIGHT c6;
          n = loadedCount job + 1;
          c8 = (if n = 3
                then fillText (caption currentDate) (STRIP_WIDTH div 2) (STRIP_HEIGHT - 40)
                       (set_ctx (\<lambda>g. g\<lparr>fillStyle := Color ''#495057'',
                                          font := ''italic bold 18px Georgia, serif'',
                                          textAlign := ''center''\<rparr>) c7)
                else c7)
      in job\<lparr>canvas := c8, loadedCount := n\<rparr>)"

text \<open>
  The image with this index finishes decoding: its handler runs, once. \<open>None\<close> when no
  such image is still loading.
\<close>

definition decoded :: "string \<Rightarrow> nat \<Rightarrow> strip_job \<Rightarrow> strip_job option" where
  "decoded currentDate index job =
     (case map_of (loading job) index of
        None \<Rightarrow> None
      | Some src \<Rightarrow>
          Some (img_onload currentDate index src
                  (job\<lparr>loading := filter (\<lambda>p. fst p \<noteq> index) (loading job)\<rparr>)))"

text \<open>The images finish decoding in the given order.\<close>

fun decodes :: "string \<Rightarrow> nat list \<Rightarrow> strip_job \<Rightarrow> strip_job option" where
  "decodes currentDate [] job = Some job"
| "decodes currentDate (index # order) job =
     (case decoded currentDate index job of
        None \<Rightarrow> None
      | Some job1 \<Rightarrow> decodes currentDate order job1)"

text \<open>What a log of drawing calls shows: the images placed, and the texts written.\<close>

fun placements :: "draw_op list \<Rightarrow> (image_source \<times> int \<times> int \<times> (int \<times> int) option) list" where
  "placements [] = []"
| "placements (DrawImage g src x y wh # os) = (src, x, y, wh) # placements os"
| "placements (_ # os) = placements os"

fun texts :: "draw_op list \<Rightarrow> (string \<times> int \<times> int) list" where
  "texts [] = []"
| "texts (FillText g t x y # os) = (t, x, y) # texts os"
| "texts (_ # os) = texts os"

subsection \<open>Pending callbacks\<close>

definition is_capture :: "task \<Rightarrow> bool" where
  "is_capture t = (case t of CaptureResume f i \<Rightarrow> True | _ \<Rightarrow> False)"

definition is_strip :: "task \<Rightarrow> bool" where
  "is_strip t = (case t of ShowStrip \<Rightarrow> True | _ \<Rightarrow> False)"

text \<open>How many of the pending callbacks are of a kind.\<close>

definition pending :: "(task \<Rightarrow> bool) \<Rightarrow> booth \<Rightarrow> nat" where
  "pending P s = length (filter P (map snd (timers s)))"

text \<open>
  What holds between events whatever is called: a capture in flight is exactly one
  pending continuation, and it still has room for its still.
\<close>

definition inv_calls :: "booth \<Rightarrow> bool" where
  "inv_calls s \<longleftrightarrow>
     length (capturedPhotos s) + pending is_capture s \<le> 3 \<and>
     pending is_capture s = (if isCapturing s then 1 else 0)"

subsection \<open>A sample session\<close>

definition demo_video :: video_el where
  "demo_video = \<lparr>videoWidth = 640, videoHeight = 480, frame = 7\<rparr>"

definition demo_canvas :: canvas_el where
  "demo_canvas =
     \<lparr>has_context = True, width = 300, height = 150, cur = default_gstate, saved = [], ops = []\<rparr>"

definition demo_camera :: camera_env where
  "demo_camera =
     \<lparr>supported = True,
      getUserMedia = (\<lambda>config. Inr \<lparr>tracks = [\<lparr>kind = ''video'', ended = False\<rparr>]\<rparr>),
      ready = None\<rparr>"

text \<open>While the loading screen is shown neither the video nor the hidden canvas is mounted.\<close>

definition loading_world :: world where
  "loading_world =
     \<lparr>videoRef = None, canvasRef = None, toDataURL = (\<lambda>c. ''data:image/jpeg;base64,/9j/''),
      camera = demo_camera\<rparr>"

definition booth_world :: world where
  "booth_world = loading_world\<lparr>videoRef := Some demo_video, canvasRef := Some demo_canvas\<rparr>"

definition open_booth :: "event list" where
  "open_booth = [StartClick, Tick 2000, Fire 0 loading_world]"

definition take_photo :: "world \<Rightarrow> event list" where
  "take_photo w =
     [ShutterClick, Tick 1000, Fire 0 w, Tick 1000, Fire 0 w, Tick 1000, Fire 0 w, Tick 1000, Fire 0 w]"

definition three_photos :: "event list" where
  "three_photos = open_booth @ take_photo booth_world @ take_photo booth_world @ take_photo booth_world"

definition fourth_attempt :: "event list" where
  "fourth_attempt = three_photos @ [ShutterClick]"

text \<open>The booth as \<open>open_booth\<close> leaves it, and the same booth showing a finished strip.\<close>

definition live_booth :: booth where
  "live_booth =
     initial\<lparr>stream := Some \<lparr>tracks = [\<lparr>kind = ''video'', ended = False\<rparr>]\<rparr>, isLoading := False,
             showCurtains := False, curtainsAnimating := True, clock := 2000\<rparr>"

definition demo_photo :: CapturedPhoto where
  "demo_photo = \<lparr>dataUrl = ''data:image/jpeg;base64,/9j/'', timestamp = 6000\<rparr>"

definition reviewing_booth :: booth where
  "reviewing_booth =
     live_booth\<lparr>capturedPhotos := [demo_photo, demo_photo, demo_photo], showPhotoStrip := True,
                clock := 14500\<rparr>"

text \<open>The booth with the video element missing, and a browser that refuses the camera.\<close>

definition blind_world :: world where
  "blind_world = booth_world\<lparr>videoRef := None\<rparr>"

definition denied_camera :: camera_env where
  "denied_camera =
     \<lparr>supported = True, getUserMedia = (\<lambda>config. Inl (ErrorObj ''Permission denied'')),
      ready = None\<rparr>"

definition awaiting_booth :: booth where
  "awaiting_booth = initial\<lparr>curtainsAnimating := True, showCurtains := False, clock := 2000\<rparr>"

text \<open>A capture whose countdown has just ended, with none and with two stills taken before.\<close>

definition capturing_booth :: booth where
  "capturing_booth = live_booth\<lparr>isCapturing := True, countdown := Some ''Smile...'', clock := 6000\<rparr>"

text \<open>
  What holds between the events the page offers: the switch to the strip is pending at
  most once and only with three stills, and the strip is shown only with three stills.
\<close>

definition inv_run :: "booth \<Rightarrow> bool" where
  "inv_run s \<longleftrightarrow>
     inv_calls s \<and> pending is_strip s \<le> 1 \<and>
     (0 < pending is_strip s \<longrightarrow> length (capturedPhotos s) = 3 \<and> \<not> showPhotoStrip s) \<and>
     (showPhotoStrip s \<longrightarrow> length (capturedPhotos s) = 3)"

definition two_photos_booth :: booth where
  "two_photos_booth =
     live_booth\<lparr>capturedPhotos := [demo_photo, demo_photo], isCapturing := True,
                countdown := Some ''Smile...'', clock := 14000\<rparr>"

definition denied_session :: "event list" where
  "denied_session = [StartClick, Tick 2000, Fire 0 (loading_world\<lparr>camera := denied_camera\<rparr>)]"

text \<open>The third still being taken, and the session that goes on to show the strip.\<close>

definition third_still_booth :: booth where
  "third_still_booth =
     handlePhotoCapture_resume booth_world F2000s (length countdownSequence) two_photos_booth"

definition strip_session :: "event list" where
  "strip_session = three_photos @ [Tick 500, Fire 0 booth_world]"

text \<open>Three stills to lay out.\<close>

definition demo_strip :: "CapturedPhoto list" where
  "demo_strip =
     [\<lparr>dataUrl = ''data:image/jpeg;base64,/9j/A'', timestamp = 6000\<rparr>,
      \<lparr>dataUrl = ''data:image/jpeg;base64,/9j/B'', timestamp = 10000\<rparr>,
      \<lparr>dataUrl = ''data:image/jpeg;base64,/9j/C'', timestamp = 14000\<rparr>]"

text \<open>
  A booth whose encoder writes out the filter the frame was drawn with, and a session in
  which the filter is changed while the countdown runs.
\<close>

definition drawn_filter :: "canvas_el \<Rightarrow> string" where
  "drawn_filter c = (case ops c of [DrawImage g src x y wh] \<Rightarrow> ctx_filter g | _ \<Rightarrow> ''data:,'')"

definition tracing_world :: world where
  "tracing_world = booth_world\<lparr>toDataURL := drawn_filter\<rparr>"

definition filter_switch_session :: "event list" where
  "filter_switch_session =
     open_booth @
     [FilterClick Noir, ShutterClick, Tick 1000, Fire 0 tracing_world, Tick 1000, Fire 0 tracing_world,
      FilterClick Glitch, Tick 1000, Fire 0 tracing_world, Tick 1000, Fire 0 tracing_world]"

section \<open>Properties\<close>

subsection \<open>Evaluating the sample session\<close>

lemmas session_defs =
  fourth_attempt_def three_photos_def open_booth_def take_photo_def initial_def handle_def due_def
  clickable_def phase_def booth_world_def loading_world_def demo_camera_def demo_video_def
  demo_canvas_def run_task_def initializePhotoBooth_def setTimeout_def requestCameraAccess_def
  cameraConfigs_def handlePhotoCapture_def handlePhotoCapture_resume_def countdown_stage_def
  countdownSequence_def after_countdown_def append_photo_def truthy_def captureCurrentFrame_def
  live_booth_def reviewing_booth_def demo_photo_def Let_def

lemma open_booth_live: "run open_booth initial = Some live_booth"
  by (simp add: session_defs)

subsection \<open>The filter catalog is complete\<close>

lemma selectedFilter_nonempty: "selectedFilter cf \<noteq> []"
  by (cases cf) (simp_all add: selectedFilter_def availableFilters_def)

lemma selectedFilter_catalog:
  "\<exists>e \<in> set availableFilters. name e = cf \<and> css e = selectedFilter cf"
  by (cases cf) (simp_all add: selectedFilter_def availableFilters_def)

subsection \<open>Counting pending callbacks\<close>

lemma filter_remove_nth:
  assumes "k < length ts"
  shows "length (filter P (map snd (take k ts @ drop (Suc k) ts))) + (if P (snd (ts ! k)) then 1 else 0)
         = length (filter P (map snd ts))"
proof -
  have "ts = take k ts @ ts ! k # drop (Suc k) ts"
    using assms by (rule id_take_nth_drop)
  then have "filter P (map snd ts) = filter P (map snd (take k ts @ ts ! k # drop (Suc k) ts))"
    by simp
  then show ?thesis
    by simp
qed

lemma pending_remove:
  assumes "k < length (timers s)"
  shows "pending P (s\<lparr>timers := take k (timers s) @ drop (Suc k) (timers s)\<rparr>)
           + (if P (snd (timers s ! k)) then 1 else 0) = pending P s"
  using filter_remove_nth [OF assms, of P] by (simp add: pending_def)

lemma requestCameraAccess_frame:
  "capturedPhotos (requestCameraAccess env v s) = capturedPhotos s"
  "isCapturing (requestCameraAccess env v s) = isCapturing s"
  "timers (requestCameraAccess env v s) = timers s"
  "showPhotoStrip (requestCameraAccess env v s) = showPhotoStrip s"
  "showCurtains (requestCameraAccess env v s) = showCurtains s"
  by (simp_all add: requestCameraAccess_def camera_catch_def Let_def split: prod.splits option.splits)

subsection \<open>The capture invariant\<close>

lemma inv_calls_task:
  assumes "inv_calls s" "k < length (timers s)"
  shows "inv_calls (run_task w (snd (timers s ! k))
           (s\<lparr>timers := take k (timers s) @ drop (Suc k) (timers s)\<rparr>))"
proof -
  let ?s = "s\<lparr>timers := take k (timers s) @ drop (Suc k) (timers s)\<rparr>"
  have rm: "pending is_capture ?s + (if is_capture (snd (timers s ! k)) then 1 else 0)
              = pending is_capture s"
    using assms(2) by (rule pending_remove)
  show ?thesis
  proof (cases "snd (timers s ! k)")
    case OpenCurtains
    then show ?thesis using assms(1) rm
      by (simp add: run_task_def inv_calls_def requestCameraAccess_frame is_capture_def pending_def)
  next
    case (CaptureResume f i)
    then show ?thesis using assms(1) rm
      by (simp add: run_task_def inv_calls_def is_capture_def handlePhotoCapture_resume_def
          countdown_stage_def after_countdown_def append_photo_def Let_def pending_def setTimeout_def
          split: if_splits)
  next
    case ShowStrip
    then show ?thesis using assms(1) rm
      by (simp add: run_task_def inv_calls_def is_capture_def pending_def)
  qed
qed

lemma inv_calls_handle:
  assumes "inv_calls s" "due e s"
  shows "inv_calls (handle e s)"
proof (cases e)
  case (Fire k w)
  then show ?thesis using assms inv_calls_task [of s k w] by (simp add: handle_def due_def)
next
  case ShutterClick
  then show ?thesis using assms(1)
    by (cases "isCapturing s")
      (simp_all add: handle_def inv_calls_def handlePhotoCapture_def countdown_stage_def
        is_capture_def pending_def setTimeout_def)
qed (use assms(1) in \<open>simp_all add: handle_def inv_calls_def initializePhotoBooth_def
       resetPhotoBooth_def pending_def setTimeout_def is_capture_def\<close>)

lemma inv_calls_calls: "inv_calls s \<Longrightarrow> calls es s = Some t \<Longrightarrow> inv_calls t"
proof (induction es arbitrary: s)
  case Nil
  then show ?case by simp
next
  case (Cons e es)
  from Cons.prems(2) have d: "due e s" and c: "calls es (handle e s) = Some t"
    by (simp_all split: if_splits)
  from Cons.IH [OF inv_calls_handle [OF Cons.prems(1) d] c] show ?case .
qed

lemma inv_calls_initial: "inv_calls initial"
  by (simp add: inv_calls_def initial_def pending_def)

lemma run_calls: "run es s = Some t \<Longrightarrow> calls es s = Some t"
  by (induction es arbitrary: s) (auto split: if_splits)

lemma calls_initial_bound: "calls es initial = Some s \<Longrightarrow> length (capturedPhotos s) \<le> 3"
  using inv_calls_calls [OF inv_calls_initial] by (fastforce simp: inv_calls_def)

subsection \<open>Claims\<close>

text \<open>
  C1. In every state the component reaches from its initial state, by any sequence of
  handler calls and timer callbacks (\<open>calls\<close>) and so by any sequence of events the page
  offers (\<open>run\<close>), there are at most three captured stills; and \<^verbatim>\<open>handlePhotoCapture\<close>
  called with three stills present returns at its guard, leaving the state as it was.
\<close>

theorem stills_never_exceed_three:
  "(calls es initial = Some s \<longrightarrow> length (capturedPhotos s) \<le> 3) \<and>
   (run es initial = Some s \<longrightarrow> length (capturedPhotos s) \<le> 3) \<and>
   (3 \<le> length (capturedPhotos t) \<longrightarrow> handlePhotoCapture t = t)"
  using calls_initial_bound [of es s] run_calls [of es initial s]
  by (auto simp: handlePhotoCapture_def)

theorem stills_never_exceed_three_witness:
  "calls fourth_attempt initial = Some (the (calls fourth_attempt initial)) \<and>
   length (capturedPhotos (the (calls fourth_attempt initial))) = 3 \<and>
   handlePhotoCapture (the (calls fourth_attempt initial)) = the (calls fourth_attempt initial)"
proof -
  have h: "calls fourth_attempt initial = Some (the (calls fourth_attempt initial))"
    by (simp add: session_defs)
  have n: "3 \<le> length (capturedPhotos (the (calls fourth_attempt initial)))"
    by (simp add: session_defs)
  from stills_never_exceed_three
         [of fourth_attempt "the (calls fourth_attempt initial)" "the (calls fourth_attempt initial)"]
       h n
  show ?thesis by auto
qed

text \<open>
  C2. \<^verbatim>\<open>handlePhotoCapture\<close> called while \<^verbatim>\<open>isCapturing\<close> is set returns at once: the
  state is as before, so the number of stills is unchanged and no callback has been
  queued for the second attempt.
\<close>

theorem capture_rejected_while_capturing:
  "isCapturing s \<Longrightarrow>
     handlePhotoCapture s = s \<and>
     length (capturedPhotos (handlePhotoCapture s)) = length (capturedPhotos s) \<and>
     timers (handlePhotoCapture s) = timers s"
  by (simp add: handlePhotoCapture_def)

theorem capture_rejected_while_capturing_witness:
  "isCapturing (handlePhotoCapture live_booth) \<and>
   handlePhotoCapture (handlePhotoCapture live_booth) = handlePhotoCapture live_booth \<and>
   length (timers (handlePhotoCapture (handlePhotoCapture live_booth))) = 1"
proof -
  have h: "isCapturing (handlePhotoCapture live_booth)"
    by (simp add: session_defs)
  have "length (timers (handlePhotoCapture live_booth)) = 1"
    by (simp add: session_defs)
  with capture_rejected_while_capturing [OF h] h show ?thesis by simp
qed

text \<open>
  C4. After \<^verbatim>\<open>resetPhotoBooth\<close>, in any state, there are no captured stills and
  \<^verbatim>\<open>showPhotoStrip\<close> is false; the stream with its tracks, the filter and the loading and
  curtain flags are as before; and unless the component was still on the curtain or the
  loading screen, it shows the live booth.
\<close>

theorem reset_clears_capture_state:
  "capturedPhotos (resetPhotoBooth s) = [] \<and>
   showPhotoStrip (resetPhotoBooth s) = False \<and>
   stream (resetPhotoBooth s) = stream s \<and>
   currentFilter (resetPhotoBooth s) = currentFilter s \<and>
   isLoading (resetPhotoBooth s) = isLoading s \<and>
   showCurtains (resetPhotoBooth s) = showCurtains s \<and>
   (phase s \<noteq> Intro \<and> phase s \<noteq> AwaitingDevice \<longrightarrow> phase (resetPhotoBooth s) = Live)"
  by (simp add: resetPhotoBooth_def phase_def)

theorem reset_clears_capture_state_witness:
  "phase reviewing_booth = Reviewing \<and> length (capturedPhotos reviewing_booth) = 3 \<and>
   capturedPhotos (resetPhotoBooth reviewing_booth) = [] \<and>
   phase (resetPhotoBooth reviewing_booth) = Live \<and>
   stream (resetPhotoBooth reviewing_booth) = Some \<lparr>tracks = [\<lparr>kind = ''video'', ended = False\<rparr>]\<rparr>"
proof -
  have h: "phase reviewing_booth = Reviewing"
    by (simp add: session_defs)
  have "stream reviewing_booth = Some \<lparr>tracks = [\<lparr>kind = ''video'', ended = False\<rparr>]\<rparr>"
       "length (capturedPhotos reviewing_booth) = 3"
    by (simp_all add: session_defs)
  with reset_clears_capture_state [of reviewing_booth] h show ?thesis by simp
qed

lemma capture_frame_drawn:
  assumes "has_context c"
  shows "\<exists>c'. captureCurrentFrame enc cf (Some v) (Some c) = (Some (enc c'), Some c')
     \<and> width c' = videoWidth v \<and> height c' = videoHeight v \<and> cur c' = default_gstate \<and> saved c' = []
     \<and> ops c' = [DrawImage (default_gstate\<lparr>ctx_filter := selectedFilter cf, scaleX := - 1\<rparr>)
                   (VideoFrame v) (- int (videoWidth v)) 0 None]"
  using assms selectedFilter_nonempty [of cf]
  by (simp add: captureCurrentFrame_def set_width_def set_height_def set_filter_def save_def
      restore_def scale_def drawImage_def Let_def default_gstate_def)

text \<open>
  What \<^verbatim>\<open>captureCurrentFrame\<close> does with the filter it closes over. When both surfaces
  are there it sizes the canvas to the video's native width and height and makes exactly
  one drawing call: the video frame, drawn at \<open>x = - width\<close> under a horizontal scale of
  \<open>- 1\<close>, so that column \<open>x\<close> of the frame lands at column \<open>width - x\<close>, with the filter
  of the drawing state set to the catalog's transform for that filter. Afterwards the
  filter of the context is \<open>none\<close> and the transform is the identity, so any later drawing
  call on this canvas is made without the filter.
\<close>

lemma capture_mirrored_filter_scoped:
  assumes "has_context c"
  shows "\<exists>c' g. captureCurrentFrame enc cf (Some v) (Some c) = (Some (enc c'), Some c') \<and>
     width c' = videoWidth v \<and> height c' = videoHeight v \<and>
     ops c' = [DrawImage g (VideoFrame v) (- int (videoWidth v)) 0 None] \<and>
     ctx_filter g = selectedFilter cf \<and>
     (\<exists>e \<in> set availableFilters. name e = cf \<and> css e = ctx_filter g) \<and>
     (\<forall>x y. lands_at g (- int (videoWidth v)) 0 (x, y) = (int (videoWidth v) - x, y)) \<and>
     ctx_filter (cur c') = ''none'' \<and> scaleX (cur c') = 1 \<and> scaleY (cur c') = 1 \<and>
     (\<forall>src x y wh. \<exists>g'. ops (drawImage src x y wh c') = ops c' @ [DrawImage g' src x y wh] \<and>
        ctx_filter g' = ''none'')"
proof -
  from capture_frame_drawn [OF assms, of enc cf v] obtain c' where
    r: "captureCurrentFrame enc cf (Some v) (Some c) = (Some (enc c'), Some c')"
    and d: "width c' = videoWidth v" "height c' = videoHeight v" "cur c' = default_gstate"
    and o: "ops c' = [DrawImage (default_gstate\<lparr>ctx_filter := selectedFilter cf, scaleX := - 1\<rparr>)
                   (VideoFrame v) (- int (videoWidth v)) 0 None]"
    by blast
  let ?g = "default_gstate\<lparr>ctx_filter := selectedFilter cf, scaleX := - 1\<rparr>"
  have f: "ctx_filter ?g = selectedFilter cf" by simp
  have m: "\<forall>x y. lands_at ?g (- int (videoWidth v)) 0 (x, y) = (int (videoWidth v) - x, y)"
    by (simp add: lands_at_def default_gstate_def)
  have l: "\<forall>src x y wh. \<exists>g'. ops (drawImage src x y wh c') = ops c' @ [DrawImage g' src x y wh] \<and>
        ctx_filter g' = ''none''"
    using d(3) by (simp add: drawImage_def default_gstate_def)
  have n: "ctx_filter (cur c') = ''none'' \<and> scaleX (cur c') = 1 \<and> scaleY (cur c') = 1"
    using d(3) by (simp add: default_gstate_def)
  from r d(1,2) o f m l n selectedFilter_catalog [of cf] show ?thesis
    by (intro exI [of _ c'] exI [of _ ?g]) simp
qed

lemma capture_mirrored_filter_scoped_sample:
  "has_context demo_canvas \<and>
   (\<exists>c' g. captureCurrentFrame (toDataURL booth_world) Noir (Some demo_video) (Some demo_canvas)
              = (Some ''data:image/jpeg;base64,/9j/'', Some c') \<and>
      width c' = 640 \<and> height c' = 480 \<and>
      ops c' = [DrawImage g (VideoFrame demo_video) (- 640) 0 None] \<and>
      ctx_filter g = ''grayscale(1) contrast(1.3) brightness(0.9)'' \<and>
      lands_at g (- 640) 0 (0, 0) = (640, 0) \<and>
      ctx_filter (cur c') = ''none'')"
proof -
  have h: "has_context demo_canvas" by (simp add: demo_canvas_def)
  have s: "selectedFilter Noir = ''grayscale(1) contrast(1.3) brightness(0.9)''"
    by (simp add: selectedFilter_def availableFilters_def)
  from capture_mirrored_filter_scoped [OF h, of "toDataURL booth_world" Noir demo_video]
  obtain c' g where
    "captureCurrentFrame (toDataURL booth_world) Noir (Some demo_video) (Some demo_canvas)
       = (Some (toDataURL booth_world c'), Some c')"
    "width c' = videoWidth demo_video" "height c' = videoHeight demo_video"
    "ops c' = [DrawImage g (VideoFrame demo_video) (- int (videoWidth demo_video)) 0 None]"
    "ctx_filter g = selectedFilter Noir"
    "\<forall>x y. lands_at g (- int (videoWidth demo_video)) 0 (x, y) = (int (videoWidth demo_video) - x, y)"
    "ctx_filter (cur c') = ''none''"
    by blast
  then show ?thesis using h s
    by (intro conjI exI [of _ c'] exI [of _ g])
      (simp_all add: demo_video_def booth_world_def loading_world_def)
qed

lemma frame_unread:
  assumes "videoRef w = None \<or> canvasRef w = None \<or> \<not> has_context (the (canvasRef w))"
  shows "fst (captureCurrentFrame (toDataURL w) f (videoRef w) (canvasRef w)) = None"
  using assms by (auto simp: captureCurrentFrame_def split: option.splits)

text \<open>
  C9. When the video element, the canvas or its context is missing, the frame read returns
  nothing, and no step of \<^verbatim>\<open>handlePhotoCapture\<close> (the click, each resumption of the
  countdown, the part after it) changes the captured stills, the phase, the alerts shown
  or the stream; the last step queues nothing and ends with \<^verbatim>\<open>isCapturing\<close> false.
\<close>

theorem failed_capture_is_silent:
  assumes "videoRef w = None \<or> canvasRef w = None \<or> \<not> has_context (the (canvasRef w))"
  shows "fst (captureCurrentFrame (toDataURL w) f (videoRef w) (canvasRef w)) = None \<and>
     capturedPhotos (handlePhotoCapture s) = capturedPhotos s \<and>
     phase (handlePhotoCapture s) = phase s \<and> alerts (handlePhotoCapture s) = alerts s \<and>
     (\<forall>i. capturedPhotos (handlePhotoCapture_resume w f i s) = capturedPhotos s \<and>
          showPhotoStrip (handlePhotoCapture_resume w f i s) = showPhotoStrip s \<and>
          phase (handlePhotoCapture_resume w f i s) = phase s \<and>
          alerts (handlePhotoCapture_resume w f i s) = alerts s \<and>
          stream (handlePhotoCapture_resume w f i s) = stream s) \<and>
     timers (handlePhotoCapture_resume w f (length countdownSequence) s) = timers s \<and>
     \<not> isCapturing (handlePhotoCapture_resume w f (length countdownSequence) s)"
  using frame_unread [OF assms, of f]
  by (simp add: handlePhotoCapture_def handlePhotoCapture_resume_def countdown_stage_def
      setTimeout_def after_countdown_def truthy_def phase_def)

theorem failed_capture_is_silent_witness:
  "videoRef blind_world = None \<and>
   capturedPhotos (handlePhotoCapture_resume blind_world F2000s (length countdownSequence) capturing_booth) = [] \<and>
   phase (handlePhotoCapture_resume blind_world F2000s (length countdownSequence) capturing_booth) = Live \<and>
   alerts (handlePhotoCapture_resume blind_world F2000s (length countdownSequence) capturing_booth) = [] \<and>
   \<not> isCapturing (handlePhotoCapture_resume blind_world F2000s (length countdownSequence) capturing_booth)"
proof -
  have h: "videoRef blind_world = None"
    by (simp add: blind_world_def)
  then have "videoRef blind_world = None \<or> canvasRef blind_world = None
      \<or> \<not> has_context (the (canvasRef blind_world))"
    by simp
  from failed_capture_is_silent [OF this, of F2000s capturing_booth] h show ?thesis
    by (simp add: capturing_booth_def live_booth_def initial_def phase_def)
qed

text \<open>
  C10. However the part of \<^verbatim>\<open>handlePhotoCapture\<close> after the countdown goes, with a still
  appended or with the frame read failing, it ends with \<^verbatim>\<open>isCapturing\<close> false. The next
  \<^verbatim>\<open>handlePhotoCapture\<close> is therefore turned away only when three stills are present;
  below three it starts a new countdown.
\<close>

theorem marker_cleared_on_completion:
  assumes "s' = handlePhotoCapture_resume w f (length countdownSequence) s"
  shows "\<not> isCapturing s' \<and>
     (handlePhotoCapture s' = s' \<longleftrightarrow> 3 \<le> length (capturedPhotos s')) \<and>
     (length (capturedPhotos s') < 3 \<longrightarrow>
        isCapturing (handlePhotoCapture s') \<and>
        countdown (handlePhotoCapture s') = Some ''3...'' \<and>
        timers (handlePhotoCapture s') = timers s' @ [(clock s' + 1000, CaptureResume (currentFilter s') 1)])"
proof -
  have c: "\<not> isCapturing s'"
    using assms by (simp add: handlePhotoCapture_resume_def after_countdown_def Let_def)
  have "3 \<le> length (capturedPhotos s') \<Longrightarrow> handlePhotoCapture s' = s'"
    by (simp add: handlePhotoCapture_def)
  moreover have a: "length (capturedPhotos s') < 3 \<Longrightarrow> isCapturing (handlePhotoCapture s') \<and>
        countdown (handlePhotoCapture s') = Some ''3...'' \<and>
        timers (handlePhotoCapture s') = timers s' @ [(clock s' + 1000, CaptureResume (currentFilter s') 1)]"
    using c by (simp add: handlePhotoCapture_def countdown_stage_def setTimeout_def countdownSequence_def)
  moreover have "handlePhotoCapture s' = s' \<Longrightarrow> 3 \<le> length (capturedPhotos s')"
  proof (rule ccontr)
    assume e: "handlePhotoCapture s' = s'" and "\<not> 3 \<le> length (capturedPhotos s')"
    then have "isCapturing (handlePhotoCapture s')" using a by simp
    with e c show False by simp
  qed
  ultimately show ?thesis using c by blast
qed

theorem marker_cleared_on_completion_witness:
  "\<not> isCapturing (handlePhotoCapture_resume blind_world F2000s (length countdownSequence) capturing_booth) \<and>
   isCapturing (handlePhotoCapture
      (handlePhotoCapture_resume blind_world F2000s (length countdownSequence) capturing_booth))"
proof -
  have "length (capturedPhotos
          (handlePhotoCapture_resume blind_world F2000s (length countdownSequence) capturing_booth)) < 3"
    by (simp add: session_defs capturing_booth_def blind_world_def)
  with marker_cleared_on_completion [OF refl, of blind_world F2000s capturing_booth]
  show ?thesis by simp
qed

lemma try_configs_all_fail:
  assumes "\<forall>config \<in> set cameraConfigs. isl (getUserMedia env config)"
  shows "try_configs (getUserMedia env) cameraConfigs None
           = (None, Some (projl (getUserMedia env (last cameraConfigs))))"
proof -
  from assms obtain e1 e2 e3 where
    "getUserMedia env (cameraConfigs ! 0) = Inl e1"
    "getUserMedia env (cameraConfigs ! 1) = Inl e2"
    "getUserMedia env (cameraConfigs ! 2) = Inl e3"
    by (auto simp: cameraConfigs_def isl_def)
  then show ?thesis
    by (simp add: cameraConfigs_def)
qed

text \<open>
  C8, as the code has it. When the browser supports capture and \<^verbatim>\<open>getUserMedia\<close> rejects
  all three configurations, \<^verbatim>\<open>requestCameraAccess\<close> shows one alert carrying the message
  of the last rejection and sets \<^verbatim>\<open>isLoading\<close> to false: the stream and the stills are as
  before, the component is no longer on the loading screen, and coming from the loading
  screen it shows the live booth.
\<close>

theorem acquisition_failure_exits_loading:
  assumes "supported env"
    and "\<forall>config \<in> set cameraConfigs. isl (getUserMedia env config)"
    and "s' = requestCameraAccess env vref s"
  shows "alerts s' = alerts s @ [camera_alert (errorMessage (projl (getUserMedia env (last cameraConfigs))))] \<and>
     isLoading s' = False \<and> stream s' = stream s \<and> capturedPhotos s' = capturedPhotos s \<and>
     phase s' \<noteq> AwaitingDevice \<and>
     (phase s = AwaitingDevice \<and> \<not> showPhotoStrip s \<longrightarrow> phase s' = Live)"
  using assms(1,3) try_configs_all_fail [OF assms(2)]
  by (simp add: requestCameraAccess_def camera_catch_def phase_def)

theorem acquisition_failure_exits_loading_witness:
  "supported denied_camera \<and> list_all (isl \<circ> getUserMedia denied_camera) cameraConfigs \<and>
   phase awaiting_booth = AwaitingDevice \<and>
   alerts (requestCameraAccess denied_camera None awaiting_booth) = [camera_alert ''Permission denied''] \<and>
   stream (requestCameraAccess denied_camera None awaiting_booth) = None \<and>
   phase (requestCameraAccess denied_camera None awaiting_booth) = Live"
proof -
  have h1: "supported denied_camera"
    by (simp add: denied_camera_def)
  have h2: "\<forall>config \<in> set cameraConfigs. isl (getUserMedia denied_camera config)"
    by (simp add: denied_camera_def)
  have p: "phase awaiting_booth = AwaitingDevice" "\<not> showPhotoStrip awaiting_booth"
      "alerts awaiting_booth = []" "stream awaiting_booth = None"
    by (simp_all add: awaiting_booth_def initial_def phase_def)
  have e: "errorMessage (projl (getUserMedia denied_camera (last cameraConfigs))) = ''Permission denied''"
    by (simp add: denied_camera_def errorMessage_def)
  from acquisition_failure_exits_loading [OF h1 h2 refl, of None awaiting_booth] h1 h2 p e
  show ?thesis by (simp add: list_all_iff)
qed

text \<open>
  C8 as stated fails: with every configuration refused, the component leaves the loading
  screen.
\<close>

theorem acquisition_failure_counterexample:
  "list_all (isl \<circ> getUserMedia denied_camera) cameraConfigs \<and>
   phase awaiting_booth = AwaitingDevice \<and>
   phase (requestCameraAccess denied_camera None awaiting_booth) \<noteq> AwaitingDevice \<and>
   run denied_session initial \<noteq> None \<and>
   phase (the (run denied_session initial)) = Live"
  by (simp add: denied_session_def session_defs denied_camera_def awaiting_booth_def camera_catch_def)

subsection \<open>The strip invariant\<close>

lemma inv_run_task:
  assumes "inv_run s" "k < length (timers s)"
  shows "inv_run (run_task w (snd (timers s ! k))
           (s\<lparr>timers := take k (timers s) @ drop (Suc k) (timers s)\<rparr>))"
proof -
  let ?s = "s\<lparr>timers := take k (timers s) @ drop (Suc k) (timers s)\<rparr>"
  have ic: "inv_calls s"
    using assms(1) by (simp add: inv_run_def)
  have rc: "pending is_capture ?s + (if is_capture (snd (timers s ! k)) then 1 else 0)
              = pending is_capture s"
    using assms(2) by (rule pending_remove)
  have rs: "pending is_strip ?s + (if is_strip (snd (timers s ! k)) then 1 else 0)
              = pending is_strip s"
    using assms(2) by (rule pending_remove)
  have c: "inv_calls (run_task w (snd (timers s ! k)) ?s)"
    using ic assms(2) by (rule inv_calls_task)
  show ?thesis
  proof (cases "snd (timers s ! k)")
    case OpenCurtains
    then show ?thesis using assms(1) rs c
      by (simp add: inv_run_def run_task_def requestCameraAccess_frame is_strip_def pending_def)
  next
    case (CaptureResume f i)
    then have "isCapturing s"
      using ic rc by (auto simp: inv_calls_def is_capture_def split: if_splits)
    then have "length (capturedPhotos s) < 3"
      using ic by (simp add: inv_calls_def)
    with CaptureResume show ?thesis using assms(1) rs c
      by (simp add: inv_run_def run_task_def is_strip_def handlePhotoCapture_resume_def
          countdown_stage_def after_countdown_def append_photo_def Let_def pending_def setTimeout_def)
  next
    case ShowStrip
    then have z: "pending is_strip ?s = 0" and n: "length (capturedPhotos s) = 3"
      using assms(1) rs by (simp_all add: inv_run_def is_strip_def)
    have "pending is_strip (?s\<lparr>showPhotoStrip := True\<rparr>) = pending is_strip ?s"
      by (simp add: pending_def)
    with ShowStrip z n c show ?thesis
      by (simp add: inv_run_def run_task_def)
  qed
qed

lemma inv_run_handle:
  assumes "inv_run s" "due e s" "clickable e s"
  shows "inv_run (handle e s)"
proof (cases e)
  case (Fire k w)
  then show ?thesis using assms inv_run_task [of s k w] by (simp add: handle_def due_def)
next
  case ShutterClick
  have "inv_calls (handle ShutterClick s)"
    using assms(1) by (simp add: inv_run_def inv_calls_handle due_def)
  with ShutterClick show ?thesis using assms(1,3)
    by (simp add: inv_run_def handle_def clickable_def phase_def handlePhotoCapture_def
        countdown_stage_def is_strip_def pending_def setTimeout_def split: if_splits)
next
  case ResetClick
  have "inv_calls (handle ResetClick s)"
    using assms(1) by (simp add: inv_run_def inv_calls_handle due_def)
  with ResetClick show ?thesis using assms(1,3)
    by (simp add: inv_run_def handle_def clickable_def phase_def resetPhotoBooth_def pending_def
        split: if_splits)
next
  case StartClick
  have "inv_calls (handle StartClick s)"
    using assms(1) by (simp add: inv_run_def inv_calls_handle due_def)
  with StartClick show ?thesis using assms(1)
    by (simp add: inv_run_def handle_def initializePhotoBooth_def pending_def setTimeout_def is_strip_def)
next
  case (FilterClick f)
  have "inv_calls (handle (FilterClick f) s)"
    using assms(1) by (simp add: inv_run_def inv_calls_handle due_def)
  with FilterClick show ?thesis using assms(1)
    by (simp add: inv_run_def handle_def pending_def)
next
  case (Tick ms)
  have "inv_calls (handle (Tick ms) s)"
    using assms(1) by (simp add: inv_run_def inv_calls_handle due_def)
  with Tick show ?thesis using assms(1)
    by (simp add: inv_run_def handle_def pending_def)
qed

lemma inv_run_run: "inv_run s \<Longrightarrow> run es s = Some t \<Longrightarrow> inv_run t"
proof (induction es arbitrary: s)
  case Nil
  then show ?case by simp
next
  case (Cons e es)
  from Cons.prems(2) have d: "due e s" "clickable e s" and c: "run es (handle e s) = Some t"
    by (simp_all split: if_splits)
  from Cons.IH [OF inv_run_handle [OF Cons.prems(1) d] c] show ?case .
qed

lemma inv_run_initial: "inv_run initial"
  by (simp add: inv_run_def inv_calls_def initial_def pending_def)

lemma strip_timer_pending: "(d, ShowStrip) \<in> set (timers s) \<Longrightarrow> 0 < pending is_strip s"
  by (force simp: pending_def is_strip_def filter_empty_conv)

lemma third_still_schedules_strip:
  assumes "length (capturedPhotos s) = 2"
    and "truthy (fst (captureCurrentFrame (toDataURL w) f (videoRef w) (canvasRef w)))"
    and "s' = handlePhotoCapture_resume w f (length countdownSequence) s"
  shows "length (capturedPhotos s') = 3 \<and> timers s' = timers s @ [(clock s + 500, ShowStrip)] \<and>
     showPhotoStrip s' = showPhotoStrip s"
  using assms
  by (simp add: handlePhotoCapture_resume_def after_countdown_def append_photo_def Let_def setTimeout_def)

lemma strip_timer_fires:
  assumes "k < length (timers u)" "timers u ! k = (d, ShowStrip)"
  shows "(due (Fire k w) u \<longleftrightarrow> d \<le> clock u) \<and> showPhotoStrip (handle (Fire k w) u) \<and>
     capturedPhotos (handle (Fire k w) u) = capturedPhotos u"
  using assms by (simp add: due_def handle_def run_task_def)

text \<open>
  C3. When the part of \<^verbatim>\<open>handlePhotoCapture\<close> after the countdown appends the third
  still, it queues the switch to the strip for 500 ms after the current time and does not
  itself show the strip. That callback cannot run before it is due, and when it runs it sets
  \<^verbatim>\<open>showPhotoStrip\<close> and leaves the stills alone. In every state the component reaches
  through the events the page offers, the strip is shown, and the switch to it is pending,
  only with exactly three stills.
\<close>

theorem strip_shown_after_third_still:
  "(length (capturedPhotos s) = 2 \<and>
    truthy (fst (captureCurrentFrame (toDataURL w) f (videoRef w) (canvasRef w))) \<longrightarrow>
      length (capturedPhotos (handlePhotoCapture_resume w f (length countdownSequence) s)) = 3 \<and>
      timers (handlePhotoCapture_resume w f (length countdownSequence) s)
        = timers s @ [(clock s + 500, ShowStrip)] \<and>
      showPhotoStrip (handlePhotoCapture_resume w f (length countdownSequence) s) = showPhotoStrip s) \<and>
   (k < length (timers u) \<and> timers u ! k = (d, ShowStrip) \<longrightarrow>
      (due (Fire k w') u \<longleftrightarrow> d \<le> clock u) \<and> showPhotoStrip (handle (Fire k w') u) \<and>
      capturedPhotos (handle (Fire k w') u) = capturedPhotos u) \<and>
   (run es initial = Some t \<longrightarrow>
      (showPhotoStrip t \<longrightarrow> length (capturedPhotos t) = 3) \<and>
      (phase t = Reviewing \<longrightarrow> length (capturedPhotos t) = 3) \<and>
      (\<forall>d'. (d', ShowStrip) \<in> set (timers t) \<longrightarrow> length (capturedPhotos t) = 3))"
proof -
  have c: "run es initial = Some t \<Longrightarrow> inv_run t"
    using inv_run_run [OF inv_run_initial] .
  have "run es initial = Some t \<Longrightarrow> showPhotoStrip t \<Longrightarrow> length (capturedPhotos t) = 3"
    using c by (simp add: inv_run_def)
  moreover have "run es initial = Some t \<Longrightarrow> phase t = Reviewing \<Longrightarrow> length (capturedPhotos t) = 3"
    using c by (simp add: inv_run_def phase_def split: if_splits)
  moreover have "run es initial = Some t \<Longrightarrow> (d', ShowStrip) \<in> set (timers t)
      \<Longrightarrow> length (capturedPhotos t) = 3" for d'
    using c strip_timer_pending [of d' t] by (simp add: inv_run_def)
  ultimately show ?thesis
    using third_still_schedules_strip [OF _ _ refl, of s w f] strip_timer_fires [of k u d w']
    by blast
qed

theorem strip_shown_after_third_still_witness:
  "length (capturedPhotos two_photos_booth) = 2 \<and>
   truthy (fst (captureCurrentFrame (toDataURL booth_world) F2000s (videoRef booth_world)
                  (canvasRef booth_world))) \<and>
   length (capturedPhotos third_still_booth) = 3 \<and>
   timers third_still_booth = [(14500, ShowStrip)] \<and>
   \<not> showPhotoStrip third_still_booth \<and>
   \<not> due (Fire 0 booth_world) third_still_booth \<and>
   due (Fire 0 booth_world) (handle (Tick 500) third_still_booth) \<and>
   showPhotoStrip (handle (Fire 0 booth_world) (handle (Tick 500) third_still_booth)) \<and>
   run strip_session initial = Some (the (run strip_session initial)) \<and>
   phase (the (run strip_session initial)) = Reviewing \<and>
   length (capturedPhotos (the (run strip_session initial))) = 3"
proof -
  have a: "length (capturedPhotos two_photos_booth) = 2"
    "truthy (fst (captureCurrentFrame (toDataURL booth_world) F2000s (videoRef booth_world)
                  (canvasRef booth_world)))"
    by (simp_all add: two_photos_booth_def session_defs)
  have b: "timers two_photos_booth = []" "clock two_photos_booth = 14000"
    "\<not> showPhotoStrip two_photos_booth"
    by (simp_all add: two_photos_booth_def session_defs)
  have r: "run strip_session initial = Some (the (run strip_session initial))"
    by (simp add: strip_session_def session_defs)
  have p: "phase (the (run strip_session initial)) = Reviewing"
    by (simp add: strip_session_def session_defs)
  note t = strip_shown_after_third_still
    [where s = two_photos_booth and w = booth_world and f = F2000s and k = 0 and d = 14500
       and w' = booth_world and es = strip_session and t = "the (run strip_session initial)"]
  have c: "length (capturedPhotos third_still_booth) = 3 \<and>
     timers third_still_booth = [(14500, ShowStrip)] \<and> \<not> showPhotoStrip third_still_booth"
    using t [of third_still_booth] a b by (simp add: third_still_booth_def)
  then have c1: "\<not> due (Fire 0 booth_world) third_still_booth"
    using b t [of third_still_booth] a
    by (simp add: third_still_booth_def handlePhotoCapture_resume_def after_countdown_def
        append_photo_def setTimeout_def Let_def)
  have e: "0 < length (timers (handle (Tick 500) third_still_booth)) \<and>
     timers (handle (Tick 500) third_still_booth) ! 0 = (14500, ShowStrip) \<and>
     clock (handle (Tick 500) third_still_booth) = 14500"
    using c a b
    by (simp add: handle_def third_still_booth_def handlePhotoCapture_resume_def after_countdown_def
        append_photo_def setTimeout_def Let_def)
  from t [of "handle (Tick 500) third_still_booth"] e
  have "due (Fire 0 booth_world) (handle (Tick 500) third_still_booth) \<and>
     showPhotoStrip (handle (Fire 0 booth_world) (handle (Tick 500) third_still_booth))"
    by simp
  moreover from t [of third_still_booth] r p
  have "length (capturedPhotos (the (run strip_session initial))) = 3"
    by simp
  ultimately show ?thesis using a c c1 r p by simp
qed

subsection \<open>Decoding orders\<close>

lemma decode_orders:
  assumes "distinct order" "set order \<subseteq> {0, 1, 2 :: nat}"
  shows "order \<in> {[], [0], [1], [2], [0, 1], [0, 2], [1, 0], [1, 2], [2, 0], [2, 1],
                  [0, 1, 2], [0, 2, 1], [1, 0, 2], [1, 2, 0], [2, 0, 1], [2, 1, 0]}"
proof -
  have "card (set order) \<le> card {0, 1, 2 :: nat}"
    using assms(2) by (intro card_mono) simp_all
  then have "length order \<le> 3"
    using distinct_card [OF assms(1)] by simp
  then consider "order = []" | a where "order = [a]" | a b where "order = [a, b]"
    | a b c where "order = [a, b, c]"
    by (auto simp: le_Suc_eq numeral_3_eq_3 length_Suc_conv)
  then show ?thesis
    using assms by cases auto
qed

lemma three_photos_list:
  assumes "length photos = 3"
  shows "photos = [photos ! 0, photos ! 1, photos ! 2]"
  using assms by (auto simp: numeral_3_eq_3 length_Suc_conv)

lemmas strip_defs =
  createPhotoStrip_def decoded_def img_onload_def set_ctx_def fillRect_def strokeRect_def
  drawImage_def fillText_def set_width_def set_height_def STRIP_WIDTH_def STRIP_HEIGHT_def
  PHOTO_WIDTH_def PHOTO_HEIGHT_def MARGIN_def PHOTO_SPACING_def Let_def

lemma strip_started:
  assumes "has_context c"
  shows "\<exists>c7. createPhotoStrip (Some c) [p0, p1, p2]
     = Some \<lparr>canvas = c7, loadedCount = 0, loading = [(0, dataUrl p0), (1, dataUrl p1), (2, dataUrl p2)]\<rparr>
     \<and> placements (ops c7) = [] \<and> texts (ops c7) = []"
  using assms by (simp add: strip_defs upt_rec)

subsection \<open>The renderer's log after any decodes\<close>

lemma placements_append: "placements (xs @ ys) = placements xs @ placements ys"
  by (induction xs rule: placements.induct) simp_all

lemma texts_append: "texts (xs @ ys) = texts xs @ texts ys"
  by (induction xs rule: texts.induct) simp_all

lemma decodes_trace:
  assumes "has_context c" "distinct order" "set order \<subseteq> {0, 1, 2}"
  shows "\<exists>job job'. createPhotoStrip (Some c) [p0, p1, p2] = Some job \<and>
     decodes date order job = Some job' \<and>
     loadedCount job' = length order \<and>
     placements (ops (canvas job'))
       = map (\<lambda>i. (Img (dataUrl ([p0, p1, p2] ! i)), 20, 20 + int i * 185, Some (220, 165))) order \<and>
     texts (ops (canvas job')) = (if length order = 3 then [(caption date, 130, 610)] else []) \<and>
     (length order = 3 \<longrightarrow>
        texts (butlast (ops (canvas job'))) = [] \<and>
        length (placements (butlast (ops (canvas job')))) = 3 \<and>
        (\<exists>g. last (ops (canvas job')) = FillText g (caption date) 130 610 \<and>
           textAlign g = ''center''))"
proof -
  from strip_started [OF assms(1), of p0 p1 p2] obtain c7 where
    j: "createPhotoStrip (Some c) [p0, p1, p2]
     = Some \<lparr>canvas = c7, loadedCount = 0, loading = [(0, dataUrl p0), (1, dataUrl p1), (2, dataUrl p2)]\<rparr>"
    and e: "placements (ops c7) = []" "texts (ops c7) = []"
    by blast
  from decode_orders [OF assms(2,3)] show ?thesis
    unfolding j using e
    by (elim insertE emptyE)
      (simp_all add: decoded_def img_onload_def set_ctx_def fillRect_def strokeRect_def
      drawImage_def fillText_def STRIP_WIDTH_def STRIP_HEIGHT_def
      PHOTO_WIDTH_def PHOTO_HEIGHT_def MARGIN_def PHOTO_SPACING_def Let_def butlast_append
      placements_append texts_append)
qed



text \<open>
  C7. With the strip canvas there and three stills, let any of the three images finish
  decoding, in any order, each once. The caption has been written exactly when all three
  have finished (\<^verbatim>\<open>loadedCount\<close> is then 3); it is then the last drawing call, written
  once, centred at \<open>(130, 610)\<close>, and all three stills were drawn before it.
\<close>

theorem caption_after_all_stills:
  assumes "has_context c" "length photos = 3" "distinct order" "set order \<subseteq> {0, 1, 2}"
  shows "\<exists>job job'. createPhotoStrip (Some c) photos = Some job \<and>
     decodes date order job = Some job' \<and>
     loadedCount job' = length order \<and>
     texts (ops (canvas job')) = (if length order = 3 then [(caption date, 130, 610)] else []) \<and>
     (length order = 3 \<longrightarrow>
        texts (butlast (ops (canvas job'))) = [] \<and>
        length (placements (butlast (ops (canvas job')))) = 3 \<and>
        (\<exists>g. last (ops (canvas job')) = FillText g (caption date) 130 610 \<and>
           textAlign g = ''center''))"
proof -
  have p: "photos = [photos ! 0, photos ! 1, photos ! 2]"
    using assms(2) by (rule three_photos_list)
  from decodes_trace [OF assms(1,3,4), of "photos ! 0" "photos ! 1" "photos ! 2" date]
  show ?thesis
    using p by auto
qed

theorem caption_after_all_stills_witness:
  "has_context demo_canvas \<and> length demo_strip = 3 \<and>
   texts (ops (canvas (the (decodes ''November 3, 2026'' [1, 2]
       (the (createPhotoStrip (Some demo_canvas) demo_strip)))))) = [] \<and>
   texts (ops (canvas (the (decodes ''November 3, 2026'' [1, 2, 0]
       (the (createPhotoStrip (Some demo_canvas) demo_strip))))))
     = [(caption ''November 3, 2026'', 130, 610)]"
proof -
  have h: "has_context demo_canvas" "length demo_strip = 3"
    by (auto simp: demo_canvas_def demo_strip_def)
  have d2: "distinct [1, 2 :: nat]" "set [1, 2 :: nat] \<subseteq> {0, 1, 2}"
    by auto
  have d3: "distinct [1, 2, 0 :: nat]" "set [1, 2, 0 :: nat] \<subseteq> {0, 1, 2}"
    by auto
  from caption_after_all_stills [OF h d2, of "''November 3, 2026''"] obtain job job2 where
    a: "createPhotoStrip (Some demo_canvas) demo_strip = Some job"
    "decodes ''November 3, 2026'' [1, 2] job = Some job2"
    "texts (ops (canvas job2)) = []"
    by auto
  from caption_after_all_stills [OF h d3, of "''November 3, 2026''"] obtain job3 where
    b: "decodes ''November 3, 2026'' [1, 2, 0] job = Some job3"
    "texts (ops (canvas job3)) = [(caption ''November 3, 2026'', 130, 610)]"
    using a(1) by auto
  from a b h show ?thesis by simp
qed

text \<open>
  C6. The filter set for the draw is the one the running \<^verbatim>\<open>handlePhotoCapture\<close> closed
  over when the shutter was pressed, not the one active when the frame is rasterised. In
  this session the shutter is pressed under Noir and the filter is changed to Glitch during
  the countdown: the session ends with \<^verbatim>\<open>currentFilter\<close> Glitch, and its one still was
  drawn with the Noir transform.
\<close>

theorem filter_switch_during_countdown:
  "run filter_switch_session initial \<noteq> None \<and>
   currentFilter (the (run filter_switch_session initial)) = Glitch \<and>
   selectedFilter Glitch = ''hue-rotate(90deg) saturate(2) contrast(1.5)'' \<and>
   map dataUrl (capturedPhotos (the (run filter_switch_session initial)))
     = [''grayscale(1) contrast(1.3) brightness(0.9)''] \<and>
   selectedFilter Noir = ''grayscale(1) contrast(1.3) brightness(0.9)''"
  by (simp add: filter_switch_session_def tracing_world_def drawn_filter_def session_defs
      selectedFilter_def availableFilters_def set_width_def set_height_def set_filter_def
      save_def restore_def scale_def drawImage_def default_gstate_def)

end
